theory Spec2Isabelle
  imports Main "HOL-Library.Sublist" "HOL-Library.AList"
begin

section \<open>The reactive core of \<^verbatim>\<open>src/src/valtio.ts\<close>\<close>

text \<open>
  The module keeps its runtime state in singletons (\<^verbatim>\<open>computedRegistry\<close>,
  \<^verbatim>\<open>dependencyGraph\<close>, \<^verbatim>\<open>proxyCache\<close>, \<^verbatim>\<open>storeOfRoot\<close>,
  \<^verbatim>\<open>storeOfProxy\<close>, \<^verbatim>\<open>currentTracker\<close>) and works on JavaScript objects
  through \<^verbatim>\<open>Proxy\<close> traps. The embedding passes one record of that state through
  every function. Objects live in a heap indexed by identity. User code (a getter body,
  the function handed to \<^verbatim>\<open>withComponentTracking\<close>) is a tree of the operations it
  can perform on the engine: a property read on a wrapper, a call of a live primitive.

  Limits of the model, all on the host side: an object has own properties only (no
  prototype chain, so \<^verbatim>\<open>getDescriptorDeep\<close> is an own-property lookup), property keys
  are strings (no symbol keys), accessors have a getter and no setter, numbers are
  integers, and a subscriber callback is opaque: its invocation is recorded as an event.
  \<^verbatim>\<open>snapshot\<close> and \<^verbatim>\<open>getStoreFor\<close> only read through the traps modelled here
  and are left out.
\<close>

subsection \<open>Data\<close>

type_synonym path = "string list"
type_synonym depkey = string

datatype prim = PUndefined | PNull | PBool bool | PNum int | PStr string

text \<open>A value: a primitive, an object (by identity), a \<^verbatim>\<open>ref(...)\<close> box, a function.\<close>

datatype jsval = Prim prim | Obj nat | RefV jsval | Fn nat

text \<open>\<^verbatim>\<open>CompId = string | symbol\<close>: a symbol for a UI subscriber, a string for a computed.\<close>

datatype compid = Sym nat | Str depkey

text \<open>\<^verbatim>\<open>currentTracker\<close>, when not null.\<close>

datatype tracker = Component nat | Computed depkey

text \<open>
  The \<^verbatim>\<open>__path\<close> of a live primitive: a raw path under a root, or a computed key.
  A live primitive is represented by its path: \<^verbatim>\<open>createLivePrimitive\<close> makes a new
  function object at every call, the engine never compares two of them, and all one can
  do with one is call it.
\<close>

datatype livepath = RawPath nat path | ComputedPath depkey

text \<open>What the \<^verbatim>\<open>get\<close> trap hands back: a plain value, a wrapper, a live primitive.\<close>

datatype result = Plain jsval | Wrapped nat | Live livepath

datatype error = Thrown | RangeError | TypeError | Unmodelled

text \<open>User code: return, throw, read a property of a wrapper, call a live primitive.\<close>

datatype prog =
    Done jsval
  | Raise
  | GetP nat string "result \<Rightarrow> prog"
  | Deref livepath "jsval \<Rightarrow> prog"

text \<open>A property: a data slot, or an accessor whose getter is given its receiver.\<close>

datatype slot = Data jsval | Accessor "nat \<Rightarrow> prog"

record obj =
  props :: "(string \<times> slot) list"
  isArray :: bool

text \<open>\<^verbatim>\<open>ComputedEntry = { run, last, lastRun }\<close>.\<close>

record entry =
  run :: prog
  lastv :: jsval
  lastRun :: nat

text \<open>What the closure of one \<^verbatim>\<open>makeProxy\<close> call captured.\<close>

record proxyrec =
  target :: nat
  pstore :: nat
  base :: path
  rootRef :: nat

text \<open>A \<^verbatim>\<open>Store\<close>: its root and its \<^verbatim>\<open>componentSubscribers\<close> (symbol, callback).\<close>

record store =
  root :: nat
  componentSubscribers :: "(nat \<times> nat) list"

text \<open>
  The state. \<open>clock\<close> is what \<^verbatim>\<open>Date.now()\<close> returns. The last three fields are
  instrumentation, written and never read by the engine: the computed keys whose
  evaluation function was invoked, the paths \<^verbatim>\<open>notifyPathChange\<close> was called with,
  and the (symbol, callback) pairs of the callbacks invoked, each in order.
\<close>

record state =
  heap :: "nat \<rightharpoonup> obj"
  proxies :: "proxyrec list"
  stores :: "store list"
  computedRegistry :: "depkey \<rightharpoonup> entry"
  dependencyGraph :: "(compid \<times> depkey list) list"
  proxyCache :: "nat \<rightharpoonup> nat"
  storeOfRoot :: "nat \<rightharpoonup> nat"
  storeOfProxy :: "nat \<rightharpoonup> nat"
  currentTracker :: "tracker option"
  clock :: nat
  evalLog :: "depkey list"
  notifyLog :: "path list"
  pingLog :: "(nat \<times> nat) list"

text \<open>
  The outcome of an engine function: \<open>None\<close> when the fuel ran out, otherwise the
  exception or the result, with the state as it was left.
\<close>

type_synonym 'a outcome = "((error + 'a) \<times> state) option"

text \<open>The way the engine calls a JavaScript closure.\<close>

type_synonym executor = "prog \<Rightarrow> state \<Rightarrow> jsval outcome"

subsection \<open>Utilities\<close>

definition REF_COMPUTED_PREFIX :: string where
  "REF_COMPUTED_PREFIX = ''__computed__:''"

definition undefined_v :: jsval where
  "undefined_v = Prim PUndefined"

text \<open>\<^verbatim>\<open>path.join(".")\<close>.\<close>

fun keyOf :: "path \<Rightarrow> depkey" where
  "keyOf [] = []"
| "keyOf [k] = k"
| "keyOf (k # k' # ks) = k @ ''.'' @ keyOf (k' # ks)"

text \<open>
  The test both loops of the write pass apply to a dependency \<open>d\<close>:
  \<^verbatim>\<open>d === changed || d.startsWith(changed + ".") || changed.startsWith(d + ".")\<close>.
\<close>

definition matches :: "depkey \<Rightarrow> depkey \<Rightarrow> bool" where
  "matches d changed \<longleftrightarrow>
     d = changed \<or> prefix (changed @ ''.'') d \<or> prefix (d @ ''.'') changed"

text \<open>Own-property lookup on a heap object.\<close>

definition getOwn :: "state \<Rightarrow> nat \<Rightarrow> string \<Rightarrow> slot option" where
  "getOwn s oid k = (case heap s oid of None \<Rightarrow> None | Some ob \<Rightarrow> map_of (props ob) k)"

text \<open>
  \<^verbatim>\<open>getValueAtPath\<close>: a reduce over the path on raw objects. A step through a
  primitive or a function yields \<^verbatim>\<open>undefined\<close>; a \<^verbatim>\<open>ref\<close> box is an object
  whose only string key is \<^verbatim>\<open>value\<close>. A step onto an accessor would run its getter
  on the raw object, which the model does not cover: \<open>None\<close>.
\<close>

fun getValueAtPath :: "state \<Rightarrow> jsval \<Rightarrow> path \<Rightarrow> jsval option" where
  "getValueAtPath s cur [] = Some cur"
| "getValueAtPath s cur (k # ks) =
     (case cur of
        Obj oid \<Rightarrow>
          (case getOwn s oid k of
             None \<Rightarrow> getValueAtPath s undefined_v ks
           | Some (Data v) \<Rightarrow> getValueAtPath s v ks
           | Some (Accessor _) \<Rightarrow> None)
      | RefV inner \<Rightarrow> getValueAtPath s (if k = ''value'' then inner else undefined_v) ks
      | _ \<Rightarrow> getValueAtPath s undefined_v ks)"

text \<open>\<^verbatim>\<open>Set.prototype.add\<close> on an insertion-ordered set.\<close>

definition setAdd :: "'a \<Rightarrow> 'a list \<Rightarrow> 'a list" where
  "setAdd x xs = (if x \<in> set xs then xs else xs @ [x])"

text \<open>
  \<^verbatim>\<open>ensureDepSet\<close>, and the \<^verbatim>\<open>ensureDepSet(id).add(k)\<close> every recording read
  performs. \<^verbatim>\<open>Map.prototype.set\<close> keeps the position of a key that is present and
  appends a new one, as \<open>AList.update\<close> does.
\<close>

definition ensureDepSet :: "compid \<Rightarrow> state \<Rightarrow> depkey list \<times> state" where
  "ensureDepSet cid s =
     (case map_of (dependencyGraph s) cid of
        Some cur \<Rightarrow> (cur, s)
      | None \<Rightarrow> ([], s\<lparr>dependencyGraph := AList.update cid [] (dependencyGraph s)\<rparr>))"

fun trackerId :: "tracker \<Rightarrow> compid" where
  "trackerId (Component c) = Sym c"
| "trackerId (Computed k) = Str k"

definition addDep :: "compid \<Rightarrow> depkey \<Rightarrow> state \<Rightarrow> state" where
  "addDep cid k s =
     (let (cur, s1) = ensureDepSet cid s
      in s1\<lparr>dependencyGraph := AList.update cid (setAdd k cur) (dependencyGraph s1)\<rparr>)"

text \<open>\<^verbatim>\<open>if (currentTracker) ensureDepSet(currentTracker.id).add(k)\<close>.\<close>

definition recordDep :: "depkey \<Rightarrow> state \<Rightarrow> state" where
  "recordDep k s =
     (case currentTracker s of None \<Rightarrow> s | Some t \<Rightarrow> addDep (trackerId t) k s)"

subsection \<open>Host operations on raw objects\<close>

definition digitVal :: "char \<Rightarrow> nat option" where
  "digitVal c =
     map_of [(CHR ''0'', 0), (CHR ''1'', 1), (CHR ''2'', 2), (CHR ''3'', 3), (CHR ''4'', 4),
             (CHR ''5'', 5), (CHR ''6'', 6), (CHR ''7'', 7), (CHR ''8'', 8), (CHR ''9'', 9)] c"

fun parseNat :: "nat \<Rightarrow> string \<Rightarrow> nat option" where
  "parseNat acc [] = Some acc"
| "parseNat acc (c # cs) =
     (case digitVal c of None \<Rightarrow> None | Some d \<Rightarrow> parseNat (10 * acc + d) cs)"

text \<open>An array index: a canonical decimal string below \<open>2^32 - 1\<close>.\<close>

definition arrayIndex :: "string \<Rightarrow> nat option" where
  "arrayIndex k =
     (if k = [] \<or> (hd k = CHR ''0'' \<and> k \<noteq> ''0'') then None
      else case parseNat 0 k of
             None \<Rightarrow> None
           | Some n \<Rightarrow> if n < 2 ^ 32 - 1 then Some n else None)"

definition arrayLength :: "obj \<Rightarrow> nat" where
  "arrayLength ob =
     (case map_of (props ob) ''length'' of
        Some (Data (Prim (PNum n))) \<Rightarrow> nat n
      | _ \<Rightarrow> 0)"

definition putObj :: "nat \<Rightarrow> obj \<Rightarrow> state \<Rightarrow> state" where
  "putObj oid ob s = s\<lparr>heap := (heap s)(oid \<mapsto> ob)\<rparr>"

text \<open>
  \<^verbatim>\<open>Reflect.set(obj, prop, newVal, receiver)\<close> on the raw target. An accessor has no
  setter: the result is \<^verbatim>\<open>false\<close>. On an array, writing an index at or beyond the
  length grows the length, and writing \<^verbatim>\<open>length\<close> truncates or throws.
\<close>

definition reflectSet :: "nat \<Rightarrow> string \<Rightarrow> jsval \<Rightarrow> state \<Rightarrow> (error + bool) \<times> state" where
  "reflectSet oid prop newVal s =
     (case heap s oid of
        None \<Rightarrow> (Inl TypeError, s)
      | Some ob \<Rightarrow>
          (case map_of (props ob) prop of
             Some (Accessor _) \<Rightarrow> (Inr False, s)
           | _ \<Rightarrow>
              if isArray ob \<and> prop = ''length'' then
                (case newVal of
                   Prim (PNum n) \<Rightarrow>
                     if 0 \<le> n \<and> n < 2 ^ 32 then
                       (Inr True,
                        putObj oid
                          (ob\<lparr>props := AList.update ''length'' (Data newVal)
                             (filter (\<lambda>(k, _). case arrayIndex k of
                                                  None \<Rightarrow> True
                                                | Some i \<Rightarrow> i < nat n)
                                (props ob))\<rparr>) s)
                     else (Inl RangeError, s)
                 | _ \<Rightarrow> (Inl Unmodelled, s))
              else
                (case arrayIndex prop of
                   Some i \<Rightarrow>
                     if isArray ob \<and> arrayLength ob \<le> i then
                       (Inr True,
                        putObj oid
                          (ob\<lparr>props := AList.update ''length'' (Data (Prim (PNum (int i + 1))))
                             (AList.update prop (Data newVal) (props ob))\<rparr>) s)
                     else
                       (Inr True,
                        putObj oid (ob\<lparr>props := AList.update prop (Data newVal) (props ob)\<rparr>) s)
                 | None \<Rightarrow>
                     (Inr True,
                      putObj oid (ob\<lparr>props := AList.update prop (Data newVal) (props ob)\<rparr>) s))))"

text \<open>
  \<^verbatim>\<open>Reflect.deleteProperty(obj, prop)\<close>: the \<^verbatim>\<open>length\<close> of an array is not
  configurable and the result is \<^verbatim>\<open>false\<close>; anything else is removed.
\<close>

definition reflectDeleteProperty :: "nat \<Rightarrow> string \<Rightarrow> state \<Rightarrow> (error + bool) \<times> state" where
  "reflectDeleteProperty oid prop s =
     (case heap s oid of
        None \<Rightarrow> (Inl TypeError, s)
      | Some ob \<Rightarrow>
          if isArray ob \<and> prop = ''length'' then (Inr False, s)
          else (Inr True, putObj oid (ob\<lparr>props := AList.delete prop (props ob)\<rparr>) s))"

subsection \<open>Live primitives\<close>

text \<open>The \<^verbatim>\<open>read\<close> closure of \<^verbatim>\<open>createLivePrimitive\<close>.\<close>

definition liveRead :: "livepath \<Rightarrow> state \<Rightarrow> jsval option" where
  "liveRead lp s =
     (case lp of
        ComputedPath k \<Rightarrow>
          (case computedRegistry s k of None \<Rightarrow> Some undefined_v | Some e \<Rightarrow> Some (lastv e))
      | RawPath r p \<Rightarrow> getValueAtPath s (Obj r) p)"

text \<open>Its \<^verbatim>\<open>access\<close> closure: read, then record the dependency if a tracker is active.\<close>

definition access :: "livepath \<Rightarrow> state \<Rightarrow> (error + jsval) \<times> state" where
  "access lp s =
     (case liveRead lp s of
        None \<Rightarrow> (Inl Unmodelled, s)
      | Some val \<Rightarrow>
          (Inr val,
           recordDep (case lp of ComputedPath k \<Rightarrow> k | RawPath r p \<Rightarrow> keyOf p) s))"

subsection \<open>Computed plumbing\<close>

definition computedKeyForPath :: "depkey \<Rightarrow> depkey" where
  "computedKeyForPath absPath = REF_COMPUTED_PREFIX @ absPath"

text \<open>
  \<^verbatim>\<open>runComputed\<close>. The dependency set is reset, the tracker is set to the computed,
  the closure runs, and the \<^verbatim>\<open>finally\<close> block sets the tracker to \<^verbatim>\<open>null\<close> on
  both exits. \<^verbatim>\<open>entry\<close> is the object fetched on entry; the two fields written
  are the only ones that change over the life of an entry.
\<close>

definition runComputed :: "executor \<Rightarrow> depkey \<Rightarrow> state \<Rightarrow> jsval outcome" where
  "runComputed ex depKey s =
     (case computedRegistry s depKey of
        None \<Rightarrow> Some (Inr undefined_v, s)
      | Some entry \<Rightarrow>
          (let s1 = s\<lparr>dependencyGraph := AList.update (Str depKey) [] (dependencyGraph s),
                       currentTracker := Some (Computed depKey),
                       evalLog := evalLog s @ [depKey]\<rparr>
           in case ex (run entry) s1 of
                None \<Rightarrow> None
              | Some (Inl e, s2) \<Rightarrow> Some (Inl e, s2\<lparr>currentTracker := None\<rparr>)
              | Some (Inr val, s2) \<Rightarrow>
                  Some (Inr val,
                        s2\<lparr>computedRegistry :=
                             (computedRegistry s2)
                               (depKey \<mapsto> entry\<lparr>lastv := val, lastRun := clock s2\<rparr>),
                           currentTracker := None\<rparr>)))"

definition ensureComputed :: "executor \<Rightarrow> depkey \<Rightarrow> prog \<Rightarrow> state \<Rightarrow> depkey outcome" where
  "ensureComputed ex absPath runner s =
     (let depKey = computedKeyForPath absPath
      in if computedRegistry s depKey = None then
           (case runComputed ex depKey
                   (s\<lparr>computedRegistry :=
                        (computedRegistry s)
                          (depKey \<mapsto> \<lparr>run = runner, lastv = undefined_v, lastRun = 0\<rparr>)\<rparr>) of
              None \<Rightarrow> None
            | Some (Inl e, s') \<Rightarrow> Some (Inl e, s')
            | Some (Inr _, s') \<Rightarrow> Some (Inr depKey, s'))
         else Some (Inr depKey, s))"

subsection \<open>Proxy creation\<close>

text \<open>\<^verbatim>\<open>makeProxy\<close>: the cached wrapper of the target, or a new one, cached.\<close>

definition makeProxy :: "nat \<Rightarrow> nat \<Rightarrow> path \<Rightarrow> nat \<Rightarrow> state \<Rightarrow> nat \<times> state" where
  "makeProxy tgt st bs rt s =
     (case proxyCache s tgt of
        Some cached \<Rightarrow> (cached, s)
      | None \<Rightarrow>
          (let p = length (proxies s)
           in (p, s\<lparr>proxies := proxies s @ [\<lparr>target = tgt, pstore = st, base = bs, rootRef = rt\<rparr>],
                    proxyCache := (proxyCache s)(tgt \<mapsto> p),
                    storeOfProxy := (storeOfProxy s)(p \<mapsto> st)\<rparr>)))"

text \<open>
  The \<^verbatim>\<open>get\<close> trap of the wrapper \<open>pid\<close>, for a string key. The receiver of the
  getter is the wrapper itself. The chain \<^verbatim>\<open>isRef\<close>, \<^verbatim>\<open>isPrimitive\<close>,
  object, anything else of the data branch is the case distinction on the value read.
\<close>

definition proxyGet :: "executor \<Rightarrow> nat \<Rightarrow> string \<Rightarrow> state \<Rightarrow> result outcome" where
  "proxyGet ex pid prop s =
     (if length (proxies s) \<le> pid then Some (Inl TypeError, s)
      else
        let px = proxies s ! pid; currentPath = base px @ [prop] in
        if prop = ''__raw'' then Some (Inr (Plain (Obj (target px))), s)
        else if prop = ''__isProxy'' then Some (Inr (Plain (Prim (PBool True))), s)
        else
          (case getOwn s (target px) prop of
             Some (Accessor getter) \<Rightarrow>
               (case ensureComputed ex (keyOf currentPath) (getter pid) s of
                  None \<Rightarrow> None
                | Some (Inl e, s1) \<Rightarrow> Some (Inl e, s1)
                | Some (Inr depKey, s1) \<Rightarrow>
                    (case currentTracker s1 of
                       Some t \<Rightarrow>
                         (let s2 = addDep (trackerId t) depKey s1
                          in Some (Inr (Plain (case computedRegistry s2 depKey of
                                                 Some e \<Rightarrow> lastv e
                                               | None \<Rightarrow> undefined_v)), s2))
                     | None \<Rightarrow> Some (Inr (Live (ComputedPath depKey)), s1)))
           | other \<Rightarrow>
               (let val = (case other of Some (Data v) \<Rightarrow> v | _ \<Rightarrow> undefined_v) in
                case val of
                  RefV inner \<Rightarrow> Some (Inr (Plain inner), recordDep (keyOf currentPath) s)
                | Prim _ \<Rightarrow>
                    (case currentTracker s of
                       Some t \<Rightarrow> Some (Inr (Plain val), addDep (trackerId t) (keyOf currentPath) s)
                     | None \<Rightarrow> Some (Inr (Live (RawPath (rootRef px) currentPath)), s))
                | Obj oid \<Rightarrow>
                    (let (p, s1) = makeProxy oid (pstore px) currentPath (rootRef px) s
                     in Some (Inr (Wrapped p), s1))
                | Fn _ \<Rightarrow> Some (Inr (Plain val), s))))"

subsection \<open>Running user code\<close>

text \<open>One step of user code, with \<open>ex\<close> for what follows and for nested evaluations.\<close>

definition step :: "executor \<Rightarrow> executor" where
  "step ex pr s =
     (case pr of
        Done v \<Rightarrow> Some (Inr v, s)
      | Raise \<Rightarrow> Some (Inl Thrown, s)
      | GetP pid prop k \<Rightarrow>
          (case proxyGet ex pid prop s of
             None \<Rightarrow> None
           | Some (Inl e, s') \<Rightarrow> Some (Inl e, s')
           | Some (Inr r, s') \<Rightarrow> ex (k r) s')
      | Deref lp k \<Rightarrow>
          (case access lp s of
             (Inl e, s') \<Rightarrow> Some (Inl e, s')
           | (Inr v, s') \<Rightarrow> ex (k v) s'))"

primrec exec :: "nat \<Rightarrow> executor" where
  "exec 0 = (\<lambda>pr s. None)"
| "exec (Suc n) = step (exec n)"

subsection \<open>The write pass\<close>

text \<open>The three variables of \<^verbatim>\<open>recomputeAffectedComputeds\<close>.\<close>

record worklist =
  queue :: "depkey list"
  seen :: "depkey list"
  changedComputed :: "depkey list"

text \<open>
  The body of the \<^verbatim>\<open>for (const [tracker, deps] of dependencyGraph)\<close> loop for one
  entry: components are skipped, a computed one of whose dependencies matches the changed
  key is run again, and it is queued when its value is no longer \<^verbatim>\<open>Object.is\<close>-equal
  to the previous one and it was not seen before.
\<close>

definition visitTracker ::
  "executor \<Rightarrow> depkey \<Rightarrow> compid \<times> depkey list \<Rightarrow> worklist \<Rightarrow> state \<Rightarrow> worklist outcome" where
  "visitTracker ex changed td w s =
     (case fst td of
        Sym _ \<Rightarrow> Some (Inr w, s)
      | Str tr \<Rightarrow>
          if \<not> (\<exists>d \<in> set (snd td). matches d changed) then Some (Inr w, s)
          else
            (case computedRegistry s tr of
               None \<Rightarrow> Some (Inr w, s)
             | Some entry \<Rightarrow>
                 (let prev = lastv entry in
                  case runComputed ex tr s of
                    None \<Rightarrow> None
                  | Some (Inl e, s') \<Rightarrow> Some (Inl e, s')
                  | Some (Inr _, s') \<Rightarrow>
                      (let cur = (case computedRegistry s' tr of
                                    Some e' \<Rightarrow> lastv e' | None \<Rightarrow> lastv entry)
                       in if prev \<noteq> cur \<and> tr \<notin> set (seen w) then
                            Some (Inr (w\<lparr>queue := queue w @ [tr],
                                         seen := seen w @ [tr],
                                         changedComputed := changedComputed w @ [tr]\<rparr>), s')
                          else Some (Inr w, s')))))"

text \<open>
  The \<^verbatim>\<open>for ... of dependencyGraph\<close> loop. A \<^verbatim>\<open>Map\<close> iterator is live: entries
  appended while the loop runs are visited too, and no entry is ever removed, so the loop
  is an index running to the current end of the list.
\<close>

primrec forTrackers ::
  "nat \<Rightarrow> executor \<Rightarrow> depkey \<Rightarrow> nat \<Rightarrow> worklist \<Rightarrow> state \<Rightarrow> worklist outcome" where
  "forTrackers 0 ex changed i w s = None"
| "forTrackers (Suc f) ex changed i w s =
     (if length (dependencyGraph s) \<le> i then Some (Inr w, s)
      else
        (case visitTracker ex changed (dependencyGraph s ! i) w s of
           None \<Rightarrow> None
         | Some (Inl e, s') \<Rightarrow> Some (Inl e, s')
         | Some (Inr w', s') \<Rightarrow> forTrackers f ex changed (Suc i) w' s'))"

text \<open>The \<^verbatim>\<open>while (queue.length)\<close> loop; \<open>n\<close> is the fuel of each inner loop.\<close>

primrec whileQueue ::
  "nat \<Rightarrow> nat \<Rightarrow> executor \<Rightarrow> worklist \<Rightarrow> state \<Rightarrow> (depkey list) outcome" where
  "whileQueue 0 n ex w s = None"
| "whileQueue (Suc f) n ex w s =
     (case queue w of
        [] \<Rightarrow> Some (Inr (changedComputed w), s)
      | changed # rest \<Rightarrow>
          (case forTrackers n ex changed 0 (w\<lparr>queue := rest\<rparr>) s of
             None \<Rightarrow> None
           | Some (Inl e, s') \<Rightarrow> Some (Inl e, s')
           | Some (Inr w', s') \<Rightarrow> whileQueue f n ex w' s'))"

definition recomputeAffectedComputeds ::
  "nat \<Rightarrow> executor \<Rightarrow> depkey list \<Rightarrow> state \<Rightarrow> (depkey list) outcome" where
  "recomputeAffectedComputeds n ex startKeys s =
     whileQueue n n ex \<lparr>queue = startKeys, seen = startKeys, changedComputed = []\<rparr> s"

text \<open>The decision on one component in the second loop of \<^verbatim>\<open>notifyPathChange\<close>.\<close>

definition shouldPing :: "depkey list \<Rightarrow> depkey \<Rightarrow> depkey list \<Rightarrow> bool" where
  "shouldPing deps changedRaw changedComputeds \<longleftrightarrow>
     (\<exists>d \<in> set deps. matches d changedRaw)
     \<or> (changedComputeds \<noteq> [] \<and> (\<exists>d \<in> set deps. d \<in> set changedComputeds))"

text \<open>
  The second loop: the components of \<^verbatim>\<open>dependencyGraph\<close> in order; the callback of
  one that should be pinged is invoked if this store has one for it.
\<close>

fun notifyComponents ::
  "(nat \<times> nat) list \<Rightarrow> depkey \<Rightarrow> depkey list \<Rightarrow> (compid \<times> depkey list) list \<Rightarrow> state \<Rightarrow> state" where
  "notifyComponents subs changedRaw cc [] s = s"
| "notifyComponents subs changedRaw cc ((cid, deps) # rest) s =
     (case cid of
        Str _ \<Rightarrow> notifyComponents subs changedRaw cc rest s
      | Sym c \<Rightarrow>
          if shouldPing deps changedRaw cc then
            (case map_of subs c of
               Some cb \<Rightarrow>
                 notifyComponents subs changedRaw cc rest (s\<lparr>pingLog := pingLog s @ [(c, cb)]\<rparr>)
             | None \<Rightarrow> notifyComponents subs changedRaw cc rest s)
          else notifyComponents subs changedRaw cc rest s)"


text \<open>\<^verbatim>\<open>notifyPathChange\<close> of the store \<open>sid\<close>.\<close>

definition notifyPathChange :: "nat \<Rightarrow> executor \<Rightarrow> nat \<Rightarrow> path \<Rightarrow> state \<Rightarrow> unit outcome" where
  "notifyPathChange n ex sid pth s =
     (let changedRaw = keyOf pth;
          s0 = s\<lparr>notifyLog := notifyLog s @ [pth]\<rparr>
      in case recomputeAffectedComputeds n ex [changedRaw] s0 of
           None \<Rightarrow> None
         | Some (Inl e, s1) \<Rightarrow> Some (Inl e, s1)
         | Some (Inr changedComputeds, s1) \<Rightarrow>
             Some (Inr (),
                   notifyComponents
                     (if sid < length (stores s1) then componentSubscribers (stores s1 ! sid) else [])
                     changedRaw changedComputeds (dependencyGraph s1) s1))"

text \<open>The \<^verbatim>\<open>set\<close> and \<^verbatim>\<open>deleteProperty\<close> traps of the wrapper \<open>pid\<close>.\<close>

definition proxySet :: "nat \<Rightarrow> executor \<Rightarrow> nat \<Rightarrow> string \<Rightarrow> jsval \<Rightarrow> state \<Rightarrow> bool outcome" where
  "proxySet n ex pid prop newVal s =
     (if length (proxies s) \<le> pid then Some (Inl TypeError, s)
      else
        let px = proxies s ! pid in
        case reflectSet (target px) prop newVal s of
          (Inl e, s1) \<Rightarrow> Some (Inl e, s1)
        | (Inr ok, s1) \<Rightarrow>
            (case notifyPathChange n ex (pstore px) (base px @ [prop]) s1 of
               None \<Rightarrow> None
             | Some (Inl e, s2) \<Rightarrow> Some (Inl e, s2)
             | Some (Inr _, s2) \<Rightarrow> Some (Inr ok, s2)))"

definition proxyDeleteProperty :: "nat \<Rightarrow> executor \<Rightarrow> nat \<Rightarrow> string \<Rightarrow> state \<Rightarrow> bool outcome" where
  "proxyDeleteProperty n ex pid prop s =
     (if length (proxies s) \<le> pid then Some (Inl TypeError, s)
      else
        let px = proxies s ! pid in
        case reflectDeleteProperty (target px) prop s of
          (Inl e, s1) \<Rightarrow> Some (Inl e, s1)
        | (Inr ok, s1) \<Rightarrow>
            (case notifyPathChange n ex (pstore px) (base px @ [prop]) s1 of
               None \<Rightarrow> None
             | Some (Inl e, s2) \<Rightarrow> Some (Inl e, s2)
             | Some (Inr _, s2) \<Rightarrow> Some (Inr ok, s2)))"

subsection \<open>Public API\<close>

text \<open>\<^verbatim>\<open>createStore\<close>, \<^verbatim>\<open>subscribeComponent\<close> and the closure it returns.\<close>

definition createStore :: "nat \<Rightarrow> state \<Rightarrow> nat \<times> state" where
  "createStore rt s =
     (let sid = length (stores s)
      in (sid, s\<lparr>stores := stores s @ [\<lparr>root = rt, componentSubscribers = []\<rparr>],
                 storeOfRoot := (storeOfRoot s)(rt \<mapsto> sid)\<rparr>))"

definition subscribeComponent :: "nat \<Rightarrow> nat \<Rightarrow> nat \<Rightarrow> state \<Rightarrow> state" where
  "subscribeComponent sid c cb s =
     (if sid < length (stores s) then
        s\<lparr>stores := (stores s)[sid := (stores s ! sid)
             \<lparr>componentSubscribers := AList.update c cb (componentSubscribers (stores s ! sid))\<rparr>]\<rparr>
      else s)"

definition unsubscribe :: "nat \<Rightarrow> nat \<Rightarrow> state \<Rightarrow> state" where
  "unsubscribe sid c s =
     (if sid < length (stores s) then
        s\<lparr>stores := (stores s)[sid := (stores s ! sid)
             \<lparr>componentSubscribers := AList.delete c (componentSubscribers (stores s ! sid))\<rparr>]\<rparr>
      else s)"

text \<open>\<^verbatim>\<open>proxy(initial)\<close>.\<close>

definition proxy :: "nat \<Rightarrow> state \<Rightarrow> nat \<times> state" where
  "proxy initial s =
     (let (sid, s1) = createStore initial s in makeProxy initial sid [] initial s1)"

text \<open>
  \<^verbatim>\<open>withComponentTracking(id, fn)\<close>: the dependency set of the component is reset, the
  tracker is set to the component, \<open>fn\<close> runs, and the \<^verbatim>\<open>finally\<close> block sets the
  tracker to \<^verbatim>\<open>null\<close>.
\<close>

definition withComponentTracking :: "executor \<Rightarrow> nat \<Rightarrow> prog \<Rightarrow> state \<Rightarrow> jsval outcome" where
  "withComponentTracking ex c fn s =
     (let s1 = s\<lparr>dependencyGraph := AList.update (Sym c) [] (dependencyGraph s),
                  currentTracker := Some (Component c)\<rparr>
      in case ex fn s1 of
           None \<Rightarrow> None
         | Some (r, s2) \<Rightarrow> Some (r, s2\<lparr>currentTracker := None\<rparr>))"

text \<open>The operations as a client calls them, with \<open>n\<close> the fuel of every loop.\<close>

definition readProp :: "nat \<Rightarrow> nat \<Rightarrow> string \<Rightarrow> state \<Rightarrow> result outcome" where
  "readProp n pid prop s = proxyGet (exec n) pid prop s"

definition writeProp :: "nat \<Rightarrow> nat \<Rightarrow> string \<Rightarrow> jsval \<Rightarrow> state \<Rightarrow> bool outcome" where
  "writeProp n pid prop newVal s = proxySet n (exec n) pid prop newVal s"

definition deleteProp :: "nat \<Rightarrow> nat \<Rightarrow> string \<Rightarrow> state \<Rightarrow> bool outcome" where
  "deleteProp n pid prop s = proxyDeleteProperty n (exec n) pid prop s"

definition track :: "nat \<Rightarrow> nat \<Rightarrow> prog \<Rightarrow> state \<Rightarrow> jsval outcome" where
  "track n c fn s = withComponentTracking (exec n) c fn s"

text \<open>What an outcome returned or threw, and the state it left.\<close>

definition resultOf :: "'a outcome \<Rightarrow> (error + 'a) option" where
  "resultOf oc = map_option fst oc"

definition stateOf :: "'a outcome \<Rightarrow> state" where
  "stateOf oc = snd (the oc)"

text \<open>The dependency set recorded for a tracker, empty when it has none.\<close>

definition depsOf :: "compid \<Rightarrow> state \<Rightarrow> depkey list" where
  "depsOf cid s = (case map_of (dependencyGraph s) cid of None \<Rightarrow> [] | Some ds \<Rightarrow> ds)"

subsection \<open>A small store\<close>

text \<open>
  \<^verbatim>\<open>this[prop]\<close> used as a primitive at once: outside a tracking scope the trap hands
  back a live primitive, which the use then calls.
\<close>

definition useVal :: "nat \<Rightarrow> string \<Rightarrow> (jsval \<Rightarrow> prog) \<Rightarrow> prog" where
  "useVal recv prop k =
     GetP recv prop
       (\<lambda>r. case r of Plain v \<Rightarrow> k v | Live lp \<Rightarrow> Deref lp k | Wrapped _ \<Rightarrow> Raise)"

fun addv :: "jsval \<Rightarrow> jsval \<Rightarrow> jsval" where
  "addv (Prim (PNum x)) (Prim (PNum y)) = Prim (PNum (x + y))"
| "addv _ _ = undefined_v"

fun above100 :: "jsval \<Rightarrow> jsval" where
  "above100 (Prim (PNum x)) = Prim (PBool (100 < x))"
| "above100 _ = Prim (PBool False)"

text \<open>
  \<^verbatim>\<open>get total() { return this.a }\<close>,
  \<^verbatim>\<open>get sum() { return this.total + this.b }\<close>,
  \<^verbatim>\<open>get big() { return this.a > 100 }\<close>,
  \<^verbatim>\<open>get boom() { this.a; throw ... }\<close>.
\<close>

definition totalGetter :: "nat \<Rightarrow> prog" where
  "totalGetter recv = useVal recv ''a'' Done"

definition sumGetter :: "nat \<Rightarrow> prog" where
  "sumGetter recv = useVal recv ''total'' (\<lambda>t. useVal recv ''b'' (\<lambda>v. Done (addv t v)))"

definition bigGetter :: "nat \<Rightarrow> prog" where
  "bigGetter recv = useVal recv ''a'' (\<lambda>v. Done (above100 v))"

definition boomGetter :: "nat \<Rightarrow> prog" where
  "boomGetter recv = useVal recv ''a'' (\<lambda>v. Raise)"

definition demoRoot :: obj where
  "demoRoot =
     \<lparr>props = [(''a'', Data (Prim (PNum 1))), (''b'', Data (Prim (PNum 2))),
               (''total'', Accessor totalGetter), (''sum'', Accessor sumGetter),
               (''big'', Accessor bigGetter), (''boom'', Accessor boomGetter),
               (''items'', Data (Obj 1))],
      isArray = False\<rparr>"

definition demoItems :: obj where
  "demoItems =
     \<lparr>props = [(''0'', Data (Prim (PNum 10))), (''1'', Data (Prim (PNum 20))),
               (''length'', Data (Prim (PNum 2)))],
      isArray = True\<rparr>"

definition emptyState :: state where
  "emptyState =
     \<lparr>heap = Map.empty, proxies = [], stores = [], computedRegistry = Map.empty,
      dependencyGraph = [], proxyCache = Map.empty, storeOfRoot = Map.empty,
      storeOfProxy = Map.empty, currentTracker = None, clock = 0, evalLog = [],
      notifyLog = [], pingLog = []\<rparr>"

text \<open>The store after \<^verbatim>\<open>proxy(root)\<close>: the root wrapper is 0, the store is 0.\<close>

definition demo0 :: state where
  "demo0 = snd (proxy 0 (emptyState\<lparr>heap := [0 \<mapsto> demoRoot, 1 \<mapsto> demoItems]\<rparr>))"

text \<open>Component bodies: \<^verbatim>\<open>() => state.total + state.b\<close> and single reads.\<close>

definition readTotalThenB :: prog where
  "readTotalThenB = useVal 0 ''total'' (\<lambda>t. useVal 0 ''b'' (\<lambda>v. Done (addv t v)))"

definition readOne :: "nat \<Rightarrow> string \<Rightarrow> prog" where
  "readOne pid prop = useVal pid prop Done"

text \<open>
  Four later moments of that store: \<^verbatim>\<open>state.total\<close> has been read once outside
  any scope; the first read of \<^verbatim>\<open>state.boom\<close> has thrown; component 7 has rendered \<^verbatim>\<open>state.big\<close> (read once before) and
  subscribed with callback 1; component 7 has rendered \<^verbatim>\<open>state.items.length\<close>
  and subscribed with callback 1.
\<close>

definition demoTotal :: state where
  "demoTotal = stateOf (readProp 6 0 ''total'' demo0)"

definition demoBoom :: state where
  "demoBoom = stateOf (readProp 6 0 ''boom'' demo0)"

definition demoBig :: state where
  "demoBig =
     subscribeComponent 0 7 1
       (stateOf (track 6 7 (readOne 0 ''big'') (stateOf (readProp 6 0 ''big'' demo0))))"

definition demoItemsW :: state where
  "demoItemsW =
     subscribeComponent 0 7 1
       (stateOf (track 6 7 (readOne 1 ''length'') (stateOf (readProp 6 0 ''items'' demo0))))"

subsection \<open>What the evaluation of a getter leaves alone\<close>

text \<open>
  A dependency set is protected in a state when it is not that of the active tracker
  and, for a computed, its entry is registered. The frame of a getter evaluation: the
  heap, the stores and the logs of notifications are as before, wrappers and
  evaluations are only added, registered entries and cached wrappers stay, the tracker is as
  before or \<^verbatim>\<open>null\<close>, the graph keeps its keys in place and the protected sets
  as they were, and a key added to the graph is a computed or the active tracker.
\<close>

definition protected :: "state \<Rightarrow> compid \<Rightarrow> bool" where
  "protected s cid \<longleftrightarrow>
     (case currentTracker s of None \<Rightarrow> True | Some t \<Rightarrow> trackerId t \<noteq> cid)
     \<and> (case cid of Sym _ \<Rightarrow> True | Str c \<Rightarrow> computedRegistry s c \<noteq> None)"

definition getterFrame :: "state \<Rightarrow> state \<Rightarrow> bool" where
  "getterFrame s s' \<longleftrightarrow>
     heap s' = heap s \<and> stores s' = stores s \<and> storeOfRoot s' = storeOfRoot s
     \<and> clock s' = clock s \<and> notifyLog s' = notifyLog s \<and> pingLog s' = pingLog s
     \<and> prefix (proxies s) (proxies s') \<and> prefix (evalLog s) (evalLog s')
     \<and> (\<forall>k e. computedRegistry s k = Some e \<longrightarrow> computedRegistry s' k = Some e)
     \<and> (\<forall>t p. proxyCache s t = Some p \<longrightarrow> proxyCache s' t = Some p)
     \<and> (currentTracker s' = currentTracker s \<or> currentTracker s' = None)
     \<and> length (dependencyGraph s) \<le> length (dependencyGraph s')
     \<and> (\<forall>j < length (dependencyGraph s).
           fst (dependencyGraph s' ! j) = fst (dependencyGraph s ! j)
           \<and> (protected s (fst (dependencyGraph s ! j))
                \<longrightarrow> dependencyGraph s' ! j = dependencyGraph s ! j))
     \<and> (\<forall>j. length (dependencyGraph s) \<le> j \<longrightarrow> j < length (dependencyGraph s') \<longrightarrow>
           (\<exists>k. fst (dependencyGraph s' ! j) = Str k)
           \<or> (\<exists>t. currentTracker s = Some t \<and> fst (dependencyGraph s' ! j) = trackerId t))"

definition framed :: "executor \<Rightarrow> bool" where
  "framed ex \<longleftrightarrow> (\<forall>pr s r s'. ex pr s = Some (r, s') \<longrightarrow> getterFrame s s')"


text \<open>
  The frame of the recomputation phase of a write pass: as above, but a registered entry
  may change its contents, and only the sets of components are known to stay.
\<close>

definition passFrame :: "state \<Rightarrow> state \<Rightarrow> bool" where
  "passFrame s s' \<longleftrightarrow>
     heap s' = heap s \<and> stores s' = stores s \<and> storeOfRoot s' = storeOfRoot s
     \<and> clock s' = clock s \<and> notifyLog s' = notifyLog s \<and> pingLog s' = pingLog s
     \<and> prefix (proxies s) (proxies s') \<and> prefix (evalLog s) (evalLog s')
     \<and> (\<forall>k. computedRegistry s k \<noteq> None \<longrightarrow> computedRegistry s' k \<noteq> None)
     \<and> length (dependencyGraph s) \<le> length (dependencyGraph s')
     \<and> (\<forall>j < length (dependencyGraph s).
           fst (dependencyGraph s' ! j) = fst (dependencyGraph s ! j)
           \<and> ((\<exists>c. fst (dependencyGraph s ! j) = Sym c)
                \<longrightarrow> dependencyGraph s' ! j = dependencyGraph s ! j))
     \<and> (\<forall>j. length (dependencyGraph s) \<le> j \<longrightarrow> j < length (dependencyGraph s') \<longrightarrow>
           (\<exists>k. fst (dependencyGraph s' ! j) = Str k))"

section \<open>Lemmas\<close>

subsection \<open>Association lists by index\<close>

lemma update_nth_fst:
  "j < length al \<Longrightarrow> fst (AList.update k v al ! j) = fst (al ! j)"
  by (induction al arbitrary: j) (auto simp: nth_Cons split: nat.splits)

lemma update_nth_other:
  "j < length al \<Longrightarrow> fst (al ! j) \<noteq> k \<Longrightarrow> AList.update k v al ! j = al ! j"
  by (induction al arbitrary: j) (auto simp: nth_Cons split: nat.splits)

lemma update_nth_new:
  "length al \<le> j \<Longrightarrow> j < length (AList.update k v al) \<Longrightarrow> AList.update k v al ! j = (k, v)"
  by (induction al arbitrary: j) (auto simp: nth_Cons split: nat.splits if_splits)

lemma length_update_ge: "length al \<le> length (AList.update k v al)"
  by (induction al) auto



subsection \<open>What the recording of a dependency touches\<close>

lemma ensureDepSet_fields [simp]:
  "heap (snd (ensureDepSet c s)) = heap s"
  "proxies (snd (ensureDepSet c s)) = proxies s"
  "stores (snd (ensureDepSet c s)) = stores s"
  "computedRegistry (snd (ensureDepSet c s)) = computedRegistry s"
  "proxyCache (snd (ensureDepSet c s)) = proxyCache s"
  "storeOfRoot (snd (ensureDepSet c s)) = storeOfRoot s"
  "storeOfProxy (snd (ensureDepSet c s)) = storeOfProxy s"
  "currentTracker (snd (ensureDepSet c s)) = currentTracker s"
  "clock (snd (ensureDepSet c s)) = clock s"
  "evalLog (snd (ensureDepSet c s)) = evalLog s"
  "notifyLog (snd (ensureDepSet c s)) = notifyLog s"
  "pingLog (snd (ensureDepSet c s)) = pingLog s"
  by (simp_all add: ensureDepSet_def split: option.splits)

lemma addDep_fields [simp]:
  "heap (addDep c k s) = heap s"
  "proxies (addDep c k s) = proxies s"
  "stores (addDep c k s) = stores s"
  "computedRegistry (addDep c k s) = computedRegistry s"
  "proxyCache (addDep c k s) = proxyCache s"
  "storeOfRoot (addDep c k s) = storeOfRoot s"
  "storeOfProxy (addDep c k s) = storeOfProxy s"
  "currentTracker (addDep c k s) = currentTracker s"
  "clock (addDep c k s) = clock s"
  "evalLog (addDep c k s) = evalLog s"
  "notifyLog (addDep c k s) = notifyLog s"
  "pingLog (addDep c k s) = pingLog s"
  by (simp_all add: addDep_def ensureDepSet_def split: option.splits)

lemma addDep_graph:
  "dependencyGraph (addDep c k s) =
     AList.update c (setAdd k (depsOf c s)) (dependencyGraph s)"
  by (simp add: addDep_def ensureDepSet_def depsOf_def update_conv' setAdd_def
      split: option.splits)

lemma recordDep_fields [simp]:
  "heap (recordDep k s) = heap s"
  "proxies (recordDep k s) = proxies s"
  "stores (recordDep k s) = stores s"
  "computedRegistry (recordDep k s) = computedRegistry s"
  "proxyCache (recordDep k s) = proxyCache s"
  "storeOfRoot (recordDep k s) = storeOfRoot s"
  "storeOfProxy (recordDep k s) = storeOfProxy s"
  "currentTracker (recordDep k s) = currentTracker s"
  "clock (recordDep k s) = clock s"
  "evalLog (recordDep k s) = evalLog s"
  "notifyLog (recordDep k s) = notifyLog s"
  "pingLog (recordDep k s) = pingLog s"
  by (simp_all add: recordDep_def split: option.splits)


subsection \<open>The frame of a getter evaluation\<close>

lemma getterFrame_refl [simp]: "getterFrame s s"
  by (simp add: getterFrame_def)

lemma protected_mono:
  assumes "getterFrame s s'" "protected s cid"
  shows "protected s' cid"
proof -
  from assms(1) have t: "currentTracker s' = currentTracker s \<or> currentTracker s' = None"
    and r: "\<And>k e. computedRegistry s k = Some e \<Longrightarrow> computedRegistry s' k = Some e"
    by (auto simp: getterFrame_def)
  show ?thesis
    using assms(2) t r
    by (cases cid) (auto simp: protected_def split: option.splits)
qed

lemma getterFrame_trans:
  assumes a: "getterFrame s s'" and b: "getterFrame s' s''"
  shows "getterFrame s s''"
proof -
  have len: "length (dependencyGraph s) \<le> length (dependencyGraph s')"
    using a by (simp add: getterFrame_def)
  have idx: "fst (dependencyGraph s'' ! j) = fst (dependencyGraph s ! j)
        \<and> (protected s (fst (dependencyGraph s ! j))
             \<longrightarrow> dependencyGraph s'' ! j = dependencyGraph s ! j)"
    if j: "j < length (dependencyGraph s)" for j
  proof -
    from j len have j': "j < length (dependencyGraph s')" by simp
    from a j have 1: "fst (dependencyGraph s' ! j) = fst (dependencyGraph s ! j)"
      and 2: "protected s (fst (dependencyGraph s ! j))
                \<Longrightarrow> dependencyGraph s' ! j = dependencyGraph s ! j"
      by (auto simp: getterFrame_def)
    from b j' have 3: "fst (dependencyGraph s'' ! j) = fst (dependencyGraph s' ! j)"
      and 4: "protected s' (fst (dependencyGraph s' ! j))
                \<Longrightarrow> dependencyGraph s'' ! j = dependencyGraph s' ! j"
      by (auto simp: getterFrame_def)
    show ?thesis
      using 1 2 3 4 protected_mono[OF a] by auto
  qed
  have new: "(\<exists>k. fst (dependencyGraph s'' ! j) = Str k)
        \<or> (\<exists>t. currentTracker s = Some t \<and> fst (dependencyGraph s'' ! j) = trackerId t)"
    if j: "length (dependencyGraph s) \<le> j" "j < length (dependencyGraph s'')" for j
  proof (cases "j < length (dependencyGraph s')")
    case True
    with a j have "(\<exists>k. fst (dependencyGraph s' ! j) = Str k)
        \<or> (\<exists>t. currentTracker s = Some t \<and> fst (dependencyGraph s' ! j) = trackerId t)"
      by (auto simp: getterFrame_def)
    moreover from b True have "fst (dependencyGraph s'' ! j) = fst (dependencyGraph s' ! j)"
      by (auto simp: getterFrame_def)
    ultimately show ?thesis by simp
  next
    case False
    with b j have "(\<exists>k. fst (dependencyGraph s'' ! j) = Str k)
        \<or> (\<exists>t. currentTracker s' = Some t \<and> fst (dependencyGraph s'' ! j) = trackerId t)"
      by (auto simp: getterFrame_def)
    moreover from a have "currentTracker s' = currentTracker s \<or> currentTracker s' = None"
      by (simp add: getterFrame_def)
    ultimately show ?thesis by auto
  qed
  have rest: "heap s'' = heap s" "stores s'' = stores s" "storeOfRoot s'' = storeOfRoot s"
    "clock s'' = clock s" "notifyLog s'' = notifyLog s" "pingLog s'' = pingLog s"
    "prefix (proxies s) (proxies s'')" "prefix (evalLog s) (evalLog s'')"
    "\<forall>k e. computedRegistry s k = Some e \<longrightarrow> computedRegistry s'' k = Some e"
    "\<forall>t p. proxyCache s t = Some p \<longrightarrow> proxyCache s'' t = Some p"
    "currentTracker s'' = currentTracker s \<or> currentTracker s'' = None"
    "length (dependencyGraph s) \<le> length (dependencyGraph s'')"
    using a b by (auto simp: getterFrame_def)
  show ?thesis
    unfolding getterFrame_def using rest idx new by blast
qed

lemma getterFrame_tracker_None:
  assumes "getterFrame (s\<lparr>currentTracker := None\<rparr>) s'"
  shows "getterFrame s s'"
proof -
  have p: "protected s cid \<Longrightarrow> protected (s\<lparr>currentTracker := None\<rparr>) cid" for cid
    by (cases cid) (simp_all add: protected_def)
  show ?thesis
    using assms p unfolding getterFrame_def by simp
qed

lemma addDep_frame:
  assumes "currentTracker s = Some t"
  shows "getterFrame s (addDep (trackerId t) k s)"
proof -
  have np: "\<not> protected s (trackerId t)"
    using assms by (simp add: protected_def)
  have "AList.update (trackerId t) v (dependencyGraph s) ! j = dependencyGraph s ! j"
    if "j < length (dependencyGraph s)" "protected s (fst (dependencyGraph s ! j))" for j v
    using that np by (intro update_nth_other) auto
  then show ?thesis
    unfolding getterFrame_def
    using assms by (simp add: addDep_graph length_update_ge update_nth_fst update_nth_new)
qed

lemma recordDep_frame: "getterFrame s (recordDep k s)"
  by (cases "currentTracker s") (simp_all add: recordDep_def addDep_frame)

lemma makeProxy_frame: "getterFrame s (snd (makeProxy tgt st bs rt s))"
  by (simp add: makeProxy_def getterFrame_def Let_def split: option.splits)

lemma access_frame: "access lp s = (r, s') \<Longrightarrow> getterFrame s s'"
  by (auto simp: access_def recordDep_frame split: option.splits)

lemma runComputed_frame:
  assumes reg: "computedRegistry s t = Some et"
    and run: "runComputed ex t s = Some (r, s')"
    and fr: "framed ex"
  shows "getterFrame (s\<lparr>computedRegistry := (computedRegistry s)(t := None),
                         currentTracker := None\<rparr>) s'"
proof -
  define s0 where "s0 = s\<lparr>computedRegistry := (computedRegistry s)(t := None),
                           currentTracker := None\<rparr>"
  define s1 where "s1 = s\<lparr>dependencyGraph := AList.update (Str t) [] (dependencyGraph s),
                           currentTracker := Some (Computed t),
                           evalLog := evalLog s @ [t]\<rparr>"
  from run reg obtain r2 s2 where ex: "ex (run et) s1 = Some (r2, s2)"
    and s': "s' = s2\<lparr>currentTracker := None\<rparr>
             \<or> (\<exists>v. s' = s2\<lparr>computedRegistry := (computedRegistry s2)(t \<mapsto> v),
                           currentTracker := None\<rparr>)"
    unfolding runComputed_def s1_def Let_def
    by (auto split: option.splits sum.splits prod.splits)
  from fr ex have f12: "getterFrame s1 s2" by (auto simp: framed_def)
  have fields: "heap s' = heap s2" "stores s' = stores s2" "storeOfRoot s' = storeOfRoot s2"
    "clock s' = clock s2" "notifyLog s' = notifyLog s2" "pingLog s' = pingLog s2"
    "proxies s' = proxies s2" "evalLog s' = evalLog s2"
    "dependencyGraph s' = dependencyGraph s2" "currentTracker s' = None"
    using s' by auto
  have reg': "computedRegistry s' k = Some e" if "computedRegistry s0 k = Some e" for k e
  proof -
    from that have kt: "k \<noteq> t" and "computedRegistry s1 k = Some e"
      by (auto simp: s0_def s1_def split: if_splits)
    with f12 have "computedRegistry s2 k = Some e" by (auto simp: getterFrame_def)
    with kt s' show ?thesis by auto
  qed
  have len1: "length (dependencyGraph s) \<le> length (dependencyGraph s1)"
    by (simp add: s1_def length_update_ge)
  have len: "length (dependencyGraph s0) \<le> length (dependencyGraph s')"
    using len1 f12 by (simp add: s0_def fields getterFrame_def)
  have idx: "fst (dependencyGraph s' ! j) = fst (dependencyGraph s0 ! j)
        \<and> (protected s0 (fst (dependencyGraph s0 ! j))
             \<longrightarrow> dependencyGraph s' ! j = dependencyGraph s0 ! j)"
    if j: "j < length (dependencyGraph s0)" for j
  proof -
    from j have js: "j < length (dependencyGraph s)" by (simp add: s0_def)
    with len1 have j1: "j < length (dependencyGraph s1)" by simp
    have k1: "fst (dependencyGraph s1 ! j) = fst (dependencyGraph s ! j)"
      using js by (simp add: s1_def update_nth_fst)
    from f12 j1 have k2: "fst (dependencyGraph s2 ! j) = fst (dependencyGraph s1 ! j)"
      and p2: "protected s1 (fst (dependencyGraph s1 ! j))
                \<Longrightarrow> dependencyGraph s2 ! j = dependencyGraph s1 ! j"
      by (auto simp: getterFrame_def)
    have "dependencyGraph s' ! j = dependencyGraph s0 ! j"
      if p: "protected s0 (fst (dependencyGraph s0 ! j))"
    proof -
      from p have ne: "fst (dependencyGraph s ! j) \<noteq> Str t"
        by (auto simp: protected_def s0_def)
      then have e1: "dependencyGraph s1 ! j = dependencyGraph s ! j"
        using js by (simp add: s1_def update_nth_other)
      have "protected s1 (fst (dependencyGraph s ! j))"
        using p ne by (cases "fst (dependencyGraph s ! j)")
          (auto simp: protected_def s0_def s1_def split: if_splits)
      with p2 e1 have "dependencyGraph s2 ! j = dependencyGraph s1 ! j" by simp
      with e1 show ?thesis by (simp add: fields s0_def)
    qed
    then show ?thesis using k1 k2 by (simp add: fields s0_def)
  qed
  have "prefix (evalLog s0) (evalLog s')"
  proof -
    have "prefix (evalLog s) (evalLog s1)" by (simp add: s1_def)
    moreover have "prefix (evalLog s1) (evalLog s2)" using f12 by (simp add: getterFrame_def)
    ultimately show ?thesis by (simp add: fields s0_def)
  qed
  moreover have "prefix (proxies s0) (proxies s')"
    using f12 by (simp add: fields s0_def s1_def getterFrame_def)
  moreover have "heap s' = heap s0" "stores s' = stores s0" "storeOfRoot s' = storeOfRoot s0"
    "clock s' = clock s0" "notifyLog s' = notifyLog s0" "pingLog s' = pingLog s0"
    using f12 by (simp_all add: fields s0_def s1_def getterFrame_def)
  moreover have "\<forall>t p. proxyCache s0 t = Some p \<longrightarrow> proxyCache s' t = Some p"
    using f12 s' by (auto simp: s0_def s1_def getterFrame_def)
  moreover have "\<exists>k. fst (dependencyGraph s' ! j) = Str k"
    if j: "length (dependencyGraph s0) \<le> j" "j < length (dependencyGraph s')" for j
  proof (cases "j < length (dependencyGraph s1)")
    case True
    with j have "dependencyGraph s1 ! j = (Str t, [])"
      by (simp add: s0_def s1_def update_nth_new)
    moreover from f12 True have "fst (dependencyGraph s2 ! j) = fst (dependencyGraph s1 ! j)"
      by (auto simp: getterFrame_def)
    ultimately show ?thesis by (simp add: fields)
  next
    case False
    with f12 j have "(\<exists>k. fst (dependencyGraph s2 ! j) = Str k)
        \<or> (\<exists>t'. currentTracker s1 = Some t' \<and> fst (dependencyGraph s2 ! j) = trackerId t')"
      by (auto simp: getterFrame_def fields)
    then show ?thesis by (auto simp: s1_def fields)
  qed
  ultimately show ?thesis
    unfolding s0_def[symmetric] getterFrame_def
    using reg' len idx fields(10) by blast
qed


lemma ensureComputed_frame:
  assumes run: "ensureComputed ex absPath runner s = Some (r, s')" and fr: "framed ex"
  shows "getterFrame s s'"
proof (cases "computedRegistry s (computedKeyForPath absPath) = None")
  case False
  with run show ?thesis by (simp add: ensureComputed_def)
next
  case True
  define k where "k = computedKeyForPath absPath"
  define e0 where "e0 = \<lparr>run = runner, lastv = undefined_v, lastRun = 0\<rparr>"
  define sr where "sr = s\<lparr>computedRegistry := (computedRegistry s)(k \<mapsto> e0)\<rparr>"
  from run True obtain r' where rc: "runComputed ex k sr = Some (r', s')"
    unfolding ensureComputed_def Let_def k_def e0_def sr_def
    by (auto split: option.splits sum.splits prod.splits)
  have "computedRegistry sr k = Some e0" by (simp add: sr_def)
  from runComputed_frame[OF this rc fr]
  have "getterFrame (sr\<lparr>computedRegistry := (computedRegistry sr)(k := None),
                        currentTracker := None\<rparr>) s'" .
  moreover have "sr\<lparr>computedRegistry := (computedRegistry sr)(k := None), currentTracker := None\<rparr>
      = s\<lparr>currentTracker := None\<rparr>"
    using True by (simp add: sr_def k_def fun_upd_idem)
  ultimately show ?thesis by (simp add: getterFrame_tracker_None)
qed

lemma makeProxy_frame': "makeProxy tgt st bs rt s = (p, s1) \<Longrightarrow> getterFrame s s1"
  using makeProxy_frame[of s tgt st bs rt] by simp

lemma proxyGet_frame:
  assumes run: "proxyGet ex pid prop s = Some (r, s')" and fr: "framed ex"
  shows "getterFrame s s'"
proof -
  have acc: "getterFrame s (addDep (trackerId t) dk s1)"
    if "ensureComputed ex ap rn s = Some (Inr dk, s1)" and "currentTracker s1 = Some t"
    for ap rn dk s1 t
    using ensureComputed_frame[OF that(1) fr] addDep_frame[OF that(2)] getterFrame_trans
    by blast
  from run show ?thesis
    unfolding proxyGet_def Let_def
    by (auto split: if_splits option.splits slot.splits sum.splits prod.splits jsval.splits
        simp: recordDep_frame addDep_frame
        intro: acc ensureComputed_frame[OF _ fr] makeProxy_frame')
qed

lemma step_frame:
  assumes fr: "framed ex"
  shows "framed (step ex)"
  unfolding framed_def
proof (intro allI impI)
  fix pr s r s'
  assume st: "step ex pr s = Some (r, s')"
  show "getterFrame s s'"
  proof (cases pr)
    case (GetP p q k)
    with st show ?thesis
      using fr
      by (auto simp: step_def framed_def split: option.splits sum.splits prod.splits
          dest!: proxyGet_frame[OF _ fr] intro: getterFrame_trans)
  next
    case (Deref lp k)
    with st show ?thesis
      using fr
      by (auto simp: step_def framed_def split: option.splits sum.splits prod.splits
          dest!: access_frame intro: getterFrame_trans)
  next
    case (Done v)
    with st show ?thesis by (simp add: step_def)
  next
    case Raise
    with st show ?thesis by (simp add: step_def)
  qed
qed

lemma exec_framed: "framed (exec n)"
  by (induction n) (simp_all add: framed_def step_frame[unfolded framed_def])

lemma exec_frame: "exec n pr s = Some (r, s') \<Longrightarrow> getterFrame s s'"
  using exec_framed[of n] by (auto simp: framed_def)

subsection \<open>The frame of the recomputation phase\<close>

lemma passFrame_refl [simp]: "passFrame s s"
  by (simp add: passFrame_def)








subsection \<open>The notification loop\<close>

lemma notifyComponents_fields [simp]:
  "heap (notifyComponents subs cr cc dg s) = heap s"
  "proxies (notifyComponents subs cr cc dg s) = proxies s"
  "stores (notifyComponents subs cr cc dg s) = stores s"
  "computedRegistry (notifyComponents subs cr cc dg s) = computedRegistry s"
  "dependencyGraph (notifyComponents subs cr cc dg s) = dependencyGraph s"
  "proxyCache (notifyComponents subs cr cc dg s) = proxyCache s"
  "currentTracker (notifyComponents subs cr cc dg s) = currentTracker s"
  "evalLog (notifyComponents subs cr cc dg s) = evalLog s"
  "notifyLog (notifyComponents subs cr cc dg s) = notifyLog s"
  by (induction subs cr cc dg s rule: notifyComponents.induct;
      simp split: compid.splits option.splits)+

text \<open>The callbacks invoked by the loop, in order.\<close>

lemma notifyComponents_pingLog:
  "pingLog (notifyComponents subs cr cc dg s) =
     pingLog s @ concat (map (\<lambda>(cid, deps).
        case cid of
          Str _ \<Rightarrow> []
        | Sym c \<Rightarrow> if shouldPing deps cr cc
                   then (case map_of subs c of Some cb \<Rightarrow> [(c, cb)] | None \<Rightarrow> [])
                   else []) dg)"
  by (induction subs cr cc dg s rule: notifyComponents.induct)
    (simp_all split: compid.splits option.splits)




subsection \<open>Evaluation on concrete states\<close>

lemma exec_numeral: "exec (numeral k) = step (exec (pred_numeral k))"
  by (simp add: numeral_eq_Suc)

lemma forTrackers_numeral:
  "forTrackers (numeral k) ex changed i w s =
     (if length (dependencyGraph s) \<le> i then Some (Inr w, s)
      else
        (case visitTracker ex changed (dependencyGraph s ! i) w s of
           None \<Rightarrow> None
         | Some (Inl e, s') \<Rightarrow> Some (Inl e, s')
         | Some (Inr w', s') \<Rightarrow> forTrackers (pred_numeral k) ex changed (Suc i) w' s'))"
  by (simp add: numeral_eq_Suc)

lemma whileQueue_numeral:
  "whileQueue (numeral k) n ex w s =
     (case queue w of
        [] \<Rightarrow> Some (Inr (changedComputed w), s)
      | changed # rest \<Rightarrow>
          (case forTrackers n ex changed 0 (w\<lparr>queue := rest\<rparr>) s of
             None \<Rightarrow> None
           | Some (Inl e, s') \<Rightarrow> Some (Inl e, s')
           | Some (Inr w', s') \<Rightarrow> whileQueue (pred_numeral k) n ex w' s'))"
  by (simp add: numeral_eq_Suc)

lemmas engine_defs =
  readProp_def writeProp_def deleteProp_def track_def resultOf_def stateOf_def depsOf_def
  proxy_def createStore_def makeProxy_def withComponentTracking_def subscribeComponent_def
  step_def proxyGet_def proxySet_def proxyDeleteProperty_def getOwn_def
  ensureComputed_def computedKeyForPath_def REF_COMPUTED_PREFIX_def runComputed_def
  addDep_def ensureDepSet_def recordDep_def access_def liveRead_def undefined_v_def setAdd_def
  notifyPathChange_def recomputeAffectedComputeds_def visitTracker_def shouldPing_def
  matches_def reflectSet_def reflectDeleteProperty_def putObj_def arrayIndex_def
  arrayLength_def digitVal_def
  exec_numeral forTrackers_numeral whileQueue_numeral Let_def

lemma demo0_eq:
  "demo0 =
     \<lparr>heap = [0 \<mapsto> demoRoot, 1 \<mapsto> demoItems],
      proxies = [\<lparr>target = 0, pstore = 0, base = [], rootRef = 0\<rparr>],
      stores = [\<lparr>root = 0, componentSubscribers = []\<rparr>],
      computedRegistry = Map.empty, dependencyGraph = [], proxyCache = [0 \<mapsto> 0],
      storeOfRoot = [0 \<mapsto> 0], storeOfProxy = [0 \<mapsto> 0], currentTracker = None,
      clock = 0, evalLog = [], notifyLog = [], pingLog = []\<rparr>"
  by (simp add: demo0_def emptyState_def proxy_def createStore_def makeProxy_def)

lemma demoTotal_eq:
  "readProp 6 0 ''total'' demo0 = Some (Inr (Live (ComputedPath ''__computed__:total'')),
     demo0\<lparr>computedRegistry := [''__computed__:total'' \<mapsto>
               \<lparr>run = totalGetter 0, lastv = Prim (PNum 1), lastRun = 0\<rparr>],
            dependencyGraph := [(Str ''__computed__:total'', [''a''])],
            evalLog := [''__computed__:total'']\<rparr>)"
  by (simp add: demo0_eq engine_defs demoRoot_def totalGetter_def useVal_def)

lemma demoProps [simp]:
  "length (proxies demo0) = 1" "proxies demo0 ! 0 = \<lparr>target = 0, pstore = 0, base = [], rootRef = 0\<rparr>"
  "heap demo0 0 = Some demoRoot" "notifyLog demo0 = []"
  by (simp_all add: demo0_eq)

lemma frame_proxy_nth:
  assumes "getterFrame s s'" "pid < length (proxies s)"
  shows "pid < length (proxies s')" "proxies s' ! pid = proxies s ! pid"
  using assms by (auto simp: getterFrame_def prefix_def nth_append)

lemma frame_getOwn: "getterFrame s s' \<Longrightarrow> getOwn s' = getOwn s"
  by (auto simp: getterFrame_def getOwn_def fun_eq_iff)


lemma proxyGet_registered:
  assumes "pid < length (proxies s)" "prop \<noteq> ''__raw''" "prop \<noteq> ''__isProxy''"
    and "getOwn s (target (proxies s ! pid)) prop = Some (Accessor g)"
    and "computedRegistry s (computedKeyForPath (keyOf (base (proxies s ! pid) @ [prop]))) = Some e"
  shows "proxyGet ex pid prop s =
     (case currentTracker s of
        None \<Rightarrow> Some (Inr (Live (ComputedPath
                  (computedKeyForPath (keyOf (base (proxies s ! pid) @ [prop]))))), s)
      | Some t \<Rightarrow> Some (Inr (Plain (lastv e)),
                  addDep (trackerId t)
                    (computedKeyForPath (keyOf (base (proxies s ! pid) @ [prop]))) s))"
  using assms
  by (simp add: proxyGet_def ensureComputed_def Let_def split: option.splits)

lemma demoTotal_state:
  "demoTotal = demo0\<lparr>computedRegistry := [''__computed__:total'' \<mapsto>
               \<lparr>run = totalGetter 0, lastv = Prim (PNum 1), lastRun = 0\<rparr>],
            dependencyGraph := [(Str ''__computed__:total'', [''a''])],
            evalLog := [''__computed__:total'']\<rparr>"
  by (simp add: demoTotal_def demoTotal_eq stateOf_def)

lemma demoBoom_state:
  "demoBoom = demo0\<lparr>computedRegistry := [''__computed__:boom'' \<mapsto>
               \<lparr>run = boomGetter 0, lastv = Prim PUndefined, lastRun = 0\<rparr>],
            dependencyGraph := [(Str ''__computed__:boom'', [''a''])],
            evalLog := [''__computed__:boom'']\<rparr>"
  by (simp add: demoBoom_def demo0_eq engine_defs demoRoot_def boomGetter_def useVal_def)

lemma demoBig_state:
  "demoBig = demo0\<lparr>computedRegistry := [''__computed__:big'' \<mapsto>
               \<lparr>run = bigGetter 0, lastv = Prim (PBool False), lastRun = 0\<rparr>],
            dependencyGraph := [(Str ''__computed__:big'', [''a'']), (Sym 7, [''__computed__:big''])],
            evalLog := [''__computed__:big''],
            stores := [\<lparr>root = 0, componentSubscribers = [(7, 1)]\<rparr>]\<rparr>"
  by (simp add: demoBig_def demo0_eq engine_defs demoRoot_def bigGetter_def useVal_def readOne_def)

lemma demoItemsW_state:
  "demoItemsW = demo0\<lparr>proxies := [\<lparr>target = 0, pstore = 0, base = [], rootRef = 0\<rparr>,
                                    \<lparr>target = 1, pstore = 0, base = [''items''], rootRef = 0\<rparr>],
            proxyCache := [0 \<mapsto> 0, 1 \<mapsto> 1], storeOfProxy := [0 \<mapsto> 0, 1 \<mapsto> 0],
            dependencyGraph := [(Sym 7, [''items.length''])],
            stores := [\<lparr>root = 0, componentSubscribers = [(7, 1)]\<rparr>]\<rparr>"
  by (simp add: demoItemsW_def demo0_eq engine_defs demoRoot_def demoItems_def useVal_def readOne_def)

lemmas demo_states = demoTotal_state demoBoom_state demoBig_state demoItemsW_state demo0_eq

subsection \<open>What the write pass runs and whom it notifies\<close>











section \<open>The claims\<close>




text \<open>
  C2 (the code departs from it). A component scope is active and reads a computed that
  has no entry yet: the evaluation of the computed is a nested scope, and when it exits
  the active scope is \<^verbatim>\<open>null\<close>, not the component that was active before entry.
  A component scope entered while another one is active exits the same way.
\<close>

theorem nested_exit_leaves_no_scope:
  "resultOf (readProp 6 0 ''total'' (demo0\<lparr>currentTracker := Some (Component 7)\<rparr>))
     = Some (Inr (Live (ComputedPath ''__computed__:total'')))
   \<and> currentTracker (stateOf (readProp 6 0 ''total'' (demo0\<lparr>currentTracker := Some (Component 7)\<rparr>)))
     = None
   \<and> currentTracker (stateOf (track 6 8 (Done undefined_v)
         (demo0\<lparr>currentTracker := Some (Component 7)\<rparr>))) = None"
  by (simp add: demo0_eq engine_defs demoRoot_def totalGetter_def useVal_def)

text \<open>
  C3 (the code departs from it). Component 7 evaluates \<^verbatim>\<open>state.total + state.b\<close>
  on the fresh store: both reads happen, the result is 3, and the dependency set
  published for the component is empty. The computed \<^verbatim>\<open>sum\<close>, which reads
  \<^verbatim>\<open>this.total\<close> and \<^verbatim>\<open>this.b\<close>, ends its first evaluation with an empty
  dependency set too.
\<close>

theorem published_deps_miss_reads:
  "resultOf (track 6 7 readTotalThenB demo0) = Some (Inr (Prim (PNum 3)))
   \<and> depsOf (Sym 7) (stateOf (track 6 7 readTotalThenB demo0)) = []
   \<and> resultOf (readProp 6 0 ''sum'' demo0) = Some (Inr (Live (ComputedPath ''__computed__:sum'')))
   \<and> depsOf (Str ''__computed__:sum'') (stateOf (readProp 6 0 ''sum'' demo0)) = []"
  by (simp add: demo0_eq engine_defs demoRoot_def totalGetter_def sumGetter_def useVal_def
      readTotalThenB_def)

text \<open>
  C4, as stated, fails: the computed \<^verbatim>\<open>total\<close> depends on the raw path \<^verbatim>\<open>a\<close>,
  component 7 reads it inside its scope, and the dependency set of the component holds the
  key of the computed alone.
\<close>

theorem component_read_no_raw_prefix:
  "depsOf (Str ''__computed__:total'') demoTotal = [''a'']
   \<and> resultOf (track 6 7 (readOne 0 ''total'') demoTotal) = Some (Inr (Prim (PNum 1)))
   \<and> depsOf (Sym 7) (stateOf (track 6 7 (readOne 0 ''total'') demoTotal))
       = [''__computed__:total'']"
  by (simp add: demo_states engine_defs demoRoot_def totalGetter_def useVal_def readOne_def)

text \<open>
  C4, amended. When the active scope is a component and it reads a computed property whose
  entry is registered, the read returns the memoized value, the dependency set of the
  component gains the key of the computed and nothing else, and every other dependency
  set, the registry and the evaluation log stay as they were.
\<close>

theorem component_read_records_computed_key:
  assumes "pid < length (proxies s)" "prop \<noteq> ''__raw''" "prop \<noteq> ''__isProxy''"
    and "getOwn s (target (proxies s ! pid)) prop = Some (Accessor g)"
    and "computedRegistry s (computedKeyForPath (keyOf (base (proxies s ! pid) @ [prop]))) = Some e"
    and "currentTracker s = Some (Component c)"
  shows "\<exists>s'. readProp n pid prop s = Some (Inr (Plain (lastv e)), s')
     \<and> set (depsOf (Sym c) s')
         = insert (computedKeyForPath (keyOf (base (proxies s ! pid) @ [prop])))
             (set (depsOf (Sym c) s))
     \<and> (\<forall>cid. cid \<noteq> Sym c \<longrightarrow> depsOf cid s' = depsOf cid s)
     \<and> computedRegistry s' = computedRegistry s \<and> evalLog s' = evalLog s"
proof -
  define k where "k = computedKeyForPath (keyOf (base (proxies s ! pid) @ [prop]))"
  have r: "readProp n pid prop s = Some (Inr (Plain (lastv e)), addDep (Sym c) k s)"
    using proxyGet_registered[OF assms(1-5), of "exec n"] assms(6)
    by (simp add: readProp_def k_def)
  have "set (depsOf (Sym c) (addDep (Sym c) k s)) = insert k (set (depsOf (Sym c) s))"
    by (auto simp: depsOf_def[of _ "addDep (Sym c) k s"] addDep_graph update_conv' setAdd_def)
  moreover have "depsOf cid (addDep (Sym c) k s) = depsOf cid s" if "cid \<noteq> Sym c" for cid
    using that by (simp add: depsOf_def[of _ "addDep (Sym c) k s"] depsOf_def[of cid s]
        addDep_graph update_conv')
  ultimately show ?thesis
    using r unfolding k_def[symmetric] by auto
qed

theorem component_read_records_computed_key_witness:
  "readProp 6 0 ''total'' (demoTotal\<lparr>currentTracker := Some (Component 7)\<rparr>)
     = Some (Inr (Plain (Prim (PNum 1))),
             addDep (Sym 7) ''__computed__:total'' (demoTotal\<lparr>currentTracker := Some (Component 7)\<rparr>))
   \<and> set (depsOf (Sym 7) (stateOf (readProp 6 0 ''total''
         (demoTotal\<lparr>currentTracker := Some (Component 7)\<rparr>)))) = {''__computed__:total''}"
proof -
  define s where "s = demoTotal\<lparr>currentTracker := Some (Component 7)\<rparr>"
  have h: "0 < length (proxies s)" "''total'' \<noteq> ''__raw''" "''total'' \<noteq> ''__isProxy''"
    "getOwn s (target (proxies s ! 0)) ''total'' = Some (Accessor totalGetter)"
    "computedRegistry s (computedKeyForPath (keyOf (base (proxies s ! 0) @ [''total''])))
       = Some \<lparr>run = totalGetter 0, lastv = Prim (PNum 1), lastRun = 0\<rparr>"
    "currentTracker s = Some (Component 7)"
    by (simp_all add: s_def demo_states getOwn_def demoRoot_def computedKeyForPath_def
        REF_COMPUTED_PREFIX_def)
  from component_read_records_computed_key[OF h, of 6]
  obtain s' where r: "readProp 6 0 ''total'' s = Some (Inr (Plain (Prim (PNum 1))), s')"
    and d: "set (depsOf (Sym 7) s') = insert (computedKeyForPath (keyOf (base (proxies s ! 0) @ [''total''])))
             (set (depsOf (Sym 7) s))"
    by auto
  have s': "s' = addDep (Sym 7) ''__computed__:total'' s"
    using r by (simp add: s_def demo_states engine_defs demoRoot_def)
  have "set (depsOf (Sym 7) s') = {''__computed__:total''}"
    using d by (simp add: s_def demo_states depsOf_def computedKeyForPath_def REF_COMPUTED_PREFIX_def)
  then show ?thesis
    using r s' unfolding s_def[symmetric] by (simp add: stateOf_def)
qed












text \<open>
  C9. The root-wrap operation called twice on one raw object returns the same wrapper,
  and a read of a property that holds an object or an array returns the same wrapper
  when it is repeated, at once or after any other read.
\<close>

theorem wrapper_identity_stable:
  "fst (proxy initial (snd (proxy initial s))) = fst (proxy initial s)
   \<and> (readProp n pid prop s = Some (Inr (Wrapped w), s') \<longrightarrow>
        readProp m pid prop s' = Some (Inr (Wrapped w), s')
        \<and> (\<forall>n' pid' prop' r' s2. readProp n' pid' prop' s' = Some (r', s2) \<longrightarrow>
              readProp m pid prop s2 = Some (Inr (Wrapped w), s2)))"
proof (intro conjI impI allI)
  show "fst (proxy initial (snd (proxy initial s))) = fst (proxy initial s)"
    by (simp add: proxy_def createStore_def makeProxy_def Let_def split: option.splits)
next
  assume first: "readProp n pid prop s = Some (Inr (Wrapped w), s')"
  have pid: "pid < length (proxies s)"
    using first by (auto simp: readProp_def proxyGet_def split: if_splits)
  from first pid obtain oid where
    slot: "getOwn s (target (proxies s ! pid)) prop = Some (Data (Obj oid))"
    and special: "prop \<noteq> ''__raw''" "prop \<noteq> ''__isProxy''"
    and mk: "makeProxy oid (pstore (proxies s ! pid)) (base (proxies s ! pid) @ [prop])
               (rootRef (proxies s ! pid)) s = (w, s')"
    unfolding readProp_def proxyGet_def Let_def
    by (auto simp: undefined_v_def
        split: if_splits option.splits slot.splits sum.splits prod.splits jsval.splits)
  have f1: "getterFrame s s'" by (rule makeProxy_frame'[OF mk])
  have cache: "proxyCache s' oid = Some w"
    using mk by (auto simp: makeProxy_def Let_def split: option.splits)
  have again: "readProp m pid prop s2 = Some (Inr (Wrapped w), s2)" if f: "getterFrame s' s2" for s2
  proof -
    have f2: "getterFrame s s2" using f1 f by (rule getterFrame_trans)
    have "pid < length (proxies s2)" "proxies s2 ! pid = proxies s ! pid"
      using frame_proxy_nth[OF f2 pid] by auto
    moreover have "getOwn s2 = getOwn s" by (rule frame_getOwn[OF f2])
    moreover have "proxyCache s2 oid = Some w" using f cache by (auto simp: getterFrame_def)
    ultimately show ?thesis
      using slot special
      by (simp add: readProp_def proxyGet_def Let_def makeProxy_def)
  qed
  show "readProp m pid prop s' = Some (Inr (Wrapped w), s')"
    by (rule again) simp
  fix n' pid' prop' r' s2
  assume "readProp n' pid' prop' s' = Some (r', s2)"
  then have "getterFrame s' s2"
    unfolding readProp_def by (rule proxyGet_frame[OF _ exec_framed])
  then show "readProp m pid prop s2 = Some (Inr (Wrapped w), s2)" by (rule again)
qed

theorem wrapper_identity_stable_witness:
  "fst (proxy 0 (snd (proxy 0 demo0))) = fst (proxy 0 demo0)
   \<and> resultOf (readProp 6 0 ''items'' demo0) = Some (Inr (Wrapped 1))
   \<and> readProp 6 0 ''items'' (stateOf (readProp 6 0 ''items'' demo0))
       = Some (Inr (Wrapped 1), stateOf (readProp 6 0 ''items'' demo0))"
proof -
  have "\<exists>s'. readProp 6 0 ''items'' demo0 = Some (Inr (Wrapped 1), s')"
    by (simp add: demo0_eq engine_defs demoRoot_def)
  then obtain s' where first: "readProp 6 0 ''items'' demo0 = Some (Inr (Wrapped 1), s')"
    by blast
  have st: "stateOf (readProp 6 0 ''items'' demo0) = s'"
    by (simp add: first stateOf_def)
  from wrapper_identity_stable[of 0 demo0 6 0 "''items''" 1 s' 6] first
  have "fst (proxy 0 (snd (proxy 0 demo0))) = fst (proxy 0 demo0)"
    and "readProp 6 0 ''items'' s' = Some (Inr (Wrapped 1), s')"
    by blast+
  then show ?thesis
    by (simp add: st) (simp add: first resultOf_def)
qed



end
